theory Spec2Isabelle
  imports Complex_Main
begin

section \<open>Strings\<close>

text \<open>
  A Python \<open>str\<close> is modelled as a \<open>string\<close> whose characters stand for the code
  points below 256. The three string methods the program uses are written out for this
  range: \<open>str.strip()\<close> removes the characters for which \<open>str.isspace\<close> holds,
  \<open>str.lower()\<close> maps the upper-case letters of ASCII and Latin-1 to lower case, and
  \<open>str.split(sep)\<close> cuts at every occurrence of a one-character separator.
\<close>

definition isspace :: "char \<Rightarrow> bool" where
  "isspace c = (c \<in> set [CHR 0x09, CHR 0x0A, CHR 0x0B, CHR 0x0C, CHR 0x0D,
     CHR 0x1C, CHR 0x1D, CHR 0x1E, CHR 0x1F, CHR 0x20, CHR 0x85, CHR 0xA0])"

definition strip :: "string \<Rightarrow> string" where
  "strip s = rev (dropWhile isspace (rev (dropWhile isspace s)))"

definition latin1_uppercase :: string where
  "latin1_uppercase =
    [CHR 0xC0, CHR 0xC1, CHR 0xC2, CHR 0xC3, CHR 0xC4, CHR 0xC5, CHR 0xC6, CHR 0xC7,
     CHR 0xC8, CHR 0xC9, CHR 0xCA, CHR 0xCB, CHR 0xCC, CHR 0xCD, CHR 0xCE, CHR 0xCF,
     CHR 0xD0, CHR 0xD1, CHR 0xD2, CHR 0xD3, CHR 0xD4, CHR 0xD5, CHR 0xD6, CHR 0xD8,
     CHR 0xD9, CHR 0xDA, CHR 0xDB, CHR 0xDC, CHR 0xDD, CHR 0xDE]"

definition latin1_lowercase :: string where
  "latin1_lowercase =
    [CHR 0xE0, CHR 0xE1, CHR 0xE2, CHR 0xE3, CHR 0xE4, CHR 0xE5, CHR 0xE6, CHR 0xE7,
     CHR 0xE8, CHR 0xE9, CHR 0xEA, CHR 0xEB, CHR 0xEC, CHR 0xED, CHR 0xEE, CHR 0xEF,
     CHR 0xF0, CHR 0xF1, CHR 0xF2, CHR 0xF3, CHR 0xF4, CHR 0xF5, CHR 0xF6, CHR 0xF8,
     CHR 0xF9, CHR 0xFA, CHR 0xFB, CHR 0xFC, CHR 0xFD, CHR 0xFE]"

definition lower_char :: "char \<Rightarrow> char" where
  "lower_char c =
     (case map_of (zip (''ABCDEFGHIJKLMNOPQRSTUVWXYZ'' @ latin1_uppercase)
                       (''abcdefghijklmnopqrstuvwxyz'' @ latin1_lowercase)) c of
        Some l \<Rightarrow> l
      | None \<Rightarrow> c)"

definition lower :: "string \<Rightarrow> string" where
  "lower s = map lower_char s"

fun split :: "char \<Rightarrow> string \<Rightarrow> string list" where
  "split sep [] = [[]]"
| "split sep (c # cs) =
     (if c = sep then [] # split sep cs
      else (case split sep cs of
              t # ts \<Rightarrow> (c # t) # ts
            | [] \<Rightarrow> [[c]]))"

definition isdigit :: "char \<Rightarrow> bool" where
  "isdigit c = (c \<in> set ''0123456789'')"

text \<open>
  The regular expression \<^verbatim>\<open> \(#\d+\)\<close> of line 35, matched at the head of a string:
  a space, \<open>(#\<close>, the longest run of digits, which must not be empty, and \<open>)\<close>.
  No shorter run of digits can match, since the character after it would be a digit.
  The result is the text after the match.
\<close>

fun match_marker :: "string \<Rightarrow> string option" where
  "match_marker (c1 # c2 # c3 # r) =
     (if c1 = CHR '' '' \<and> c2 = CHR ''('' \<and> c3 = CHR ''#'' then
        (case dropWhile isdigit r of
           [] \<Rightarrow> None
         | c # r' \<Rightarrow>
             if takeWhile isdigit r \<noteq> [] \<and> c = CHR '')'' then Some r' else None)
      else None)"
| "match_marker _ = None"

text \<open>
  \<open>re.sub(pattern, '', s)\<close> for that pattern: scanning from the left, every match is
  dropped and the scan goes on after it; a character at which no match starts is kept.
\<close>

function re_sub_marker :: "string \<Rightarrow> string" where
  "re_sub_marker [] = []"
| "re_sub_marker (c # cs) =
     (case match_marker (c # cs) of
        Some r \<Rightarrow> re_sub_marker r
      | None \<Rightarrow> c # re_sub_marker cs)"
  by pat_completeness auto
termination
proof (relation "measure length")
  show "wf (measure length)" by simp
next
  fix c :: char and cs r :: string
  assume m: "match_marker (c # cs) = Some r"
  have "length r < length (c # cs)"
  proof (cases cs)
    case Nil
    with m show ?thesis by simp
  next
    case outer: (Cons c2 cs2)
    show ?thesis
    proof (cases cs2)
      case Nil
      with m outer show ?thesis by simp
    next
      case inner: (Cons c3 t)
      have "length (dropWhile isdigit t) \<le> length t"
        by (rule length_dropWhile_le)
      with m outer inner show ?thesis
        by (auto split: if_splits list.splits)
    qed
  qed
  then show "(r, c # cs) \<in> measure length" by simp
next
  fix c :: char and cs :: string
  show "(cs, c # cs) \<in> measure length" by simp
qed

section \<open>The table\<close>

text \<open>
  A cell of the columns \<open>Number of Pages\<close> and \<open>My Rating\<close> is a number, a missing
  value, or something \<open>pd.to_numeric\<close> cannot read as a number. With
  \<open>errors='coerce'\<close> the last becomes a missing value. Python floats are idealised as
  exact rationals.
\<close>

datatype cell = Num rat | NaN | Unparseable

fun to_numeric :: "cell \<Rightarrow> cell" where
  "to_numeric (Num q) = Num q"
| "to_numeric NaN = NaN"
| "to_numeric Unparseable = NaN"

fun dropna :: "cell list \<Rightarrow> rat list" where
  "dropna [] = []"
| "dropna (Num q # cs) = q # dropna cs"
| "dropna (_ # cs) = dropna cs"

text \<open>
  A row of \<open>self.df\<close>: the six columns of the export and the two columns that
  \<open>_clean_bookshelves\<close> derives. A raw shelf cell is \<open>None\<close> where pandas holds a
  missing value. The frame lists the names of the columns it has; a field of a row
  whose column is not listed is never read.
\<close>

record row =
  Title :: string
  Author :: string
  Number_of_Pages :: cell
  My_Rating :: cell
  Bookshelves :: "string option"
  Bookshelves_with_positions :: "string option"
  bookshelves_list :: "string list"
  bookshelves_positions_list :: "string list"

record dataframe =
  columns :: "string list"
  rows :: "row list"

datatype error = KeyError

section \<open>The shelf normalizer\<close>

fun fillna :: "string option \<Rightarrow> string" where
  "fillna None = []"
| "fillna (Some x) = x"

text \<open>The two lambdas of lines 29 and 35; \<open>if x\<close> tests that the string is not empty.\<close>

definition shelves_of :: "string \<Rightarrow> string list" where
  "shelves_of x = (if x \<noteq> [] then map strip (split CHR '','' x) else [])"

definition shelves_positions_of :: "string \<Rightarrow> string list" where
  "shelves_positions_of x =
     (if x \<noteq> [] then map (\<lambda>shelf. re_sub_marker (strip shelf)) (split CHR '','' x) else [])"

text \<open>Assigning a column adds its name to the frame unless it is there already.\<close>

definition add_column :: "string \<Rightarrow> string list \<Rightarrow> string list" where
  "add_column name cols = (if name \<in> set cols then cols else cols @ [name])"

definition clean_bookshelves :: "dataframe \<Rightarrow> dataframe" where
  "clean_bookshelves df =
     (let df1 =
        (if ''Bookshelves'' \<in> set (columns df) then
           \<lparr>columns = add_column ''bookshelves_list'' (columns df),
            rows = map (\<lambda>r. r\<lparr>bookshelves_list := shelves_of (fillna (Bookshelves r))\<rparr>)
                     (rows df)\<rparr>
         else df)
      in
        if ''Bookshelves with positions'' \<in> set (columns df1) then
          \<lparr>columns = add_column ''bookshelves_positions_list'' (columns df1),
           rows = map (\<lambda>r. r\<lparr>bookshelves_positions_list :=
                          shelves_positions_of (fillna (Bookshelves_with_positions r))\<rparr>)
                    (rows df1)\<rparr>
        else df1)"

text \<open>\<open>__init__\<close> on a data frame: the frame is copied and the shelf columns derived.\<close>

definition init :: "dataframe \<Rightarrow> dataframe" where
  "init data_source = clean_bookshelves data_source"

section \<open>The query engine\<close>

text \<open>
  Every method takes the value of \<open>self.df\<close> and returns its result together with the
  value of \<open>self.df\<close> after the call. Reading a column that the frame does not have
  raises \<open>KeyError\<close>. Selecting with a boolean mask, \<open>df[mask]\<close>, builds a new frame
  with the same columns and the rows at which the mask holds, in their order; such a
  local frame is written as the list of its rows where its columns are not needed.
\<close>

text \<open>The masks: \<open>any(shelf.lower() == s.lower() for s in x)\<close>,
  \<open>shelf.lower() in [s.lower() for s in x]\<close> and \<open>'read' in [s.lower() for s in x]\<close>.\<close>

definition mask_any :: "string \<Rightarrow> row \<Rightarrow> bool" where
  "mask_any shelf r = list_ex (\<lambda>s. lower shelf = lower s) (bookshelves_list r)"

definition mask_in :: "string \<Rightarrow> row \<Rightarrow> bool" where
  "mask_in shelf r = (lower shelf \<in> set (map lower (bookshelves_list r)))"

definition mask_literal :: "string \<Rightarrow> row \<Rightarrow> bool" where
  "mask_literal name r = (name \<in> set (map lower (bookshelves_list r)))"

definition shelf_overlap_percentage ::
  "dataframe \<Rightarrow> string \<Rightarrow> string \<Rightarrow> (error + rat) \<times> dataframe" where
  "shelf_overlap_percentage df shelf1 shelf2 =
     (if ''bookshelves_list'' \<notin> set (columns df) then (Inl KeyError, df)
      else
        let shelf1_books = filter (mask_any shelf1) (rows df) in
        if length shelf1_books = 0 then (Inr 0, df)
        else
          let shelf1_and_shelf2_books = filter (mask_any shelf2) shelf1_books;
              overlap_percentage =
                (of_nat (length shelf1_and_shelf2_books) / of_nat (length shelf1_books)) * 100
          in (Inr overlap_percentage, df))"

text \<open>The reductions of a series of numbers without missing values.\<close>

definition mean :: "rat list \<Rightarrow> rat" where
  "mean xs = sum_list xs / of_nat (length xs)"

definition series_min :: "rat list \<Rightarrow> rat" where
  "series_min xs = fold min (tl xs) (hd xs)"

definition series_max :: "rat list \<Rightarrow> rat" where
  "series_max xs = fold max (tl xs) (hd xs)"

definition median :: "rat list \<Rightarrow> rat" where
  "median xs =
     (let s = sort xs; n = length s
      in if n mod 2 = 1 then s ! (n div 2)
         else (s ! (n div 2 - 1) + s ! (n div 2)) / 2)"

record page_stats =
  min_pages :: rat
  max_pages :: rat
  median_pages :: rat
  total_books :: nat
  total_pages :: rat

definition average_pages_on_shelf ::
  "dataframe \<Rightarrow> string \<Rightarrow> bool \<Rightarrow> (error + rat \<times> page_stats) \<times> dataframe" where
  "average_pages_on_shelf df shelf only_read =
     (if ''bookshelves_list'' \<notin> set (columns df) then (Inl KeyError, df)
      else
        let shelf_books = filter (mask_in shelf) (rows df);
            shelf_books =
              (if only_read then filter (mask_literal ''read'') shelf_books else shelf_books)
        in
          if length shelf_books = 0 then
            (Inr (0, \<lparr>min_pages = 0, max_pages = 0, median_pages = 0,
                       total_books = 0, total_pages = 0\<rparr>), df)
          else if ''Number of Pages'' \<notin> set (columns df) then (Inl KeyError, df)
          else
            let pages = dropna (map (\<lambda>r. to_numeric (Number_of_Pages r)) shelf_books) in
            if length pages = 0 then
              (Inr (0, \<lparr>min_pages = 0, max_pages = 0, median_pages = 0,
                         total_books = length shelf_books, total_pages = 0\<rparr>), df)
            else
              (Inr (mean pages,
                    \<lparr>min_pages = series_min pages, max_pages = series_max pages,
                     median_pages = median pages, total_books = length shelf_books,
                     total_pages = sum_list pages\<rparr>), df))"

definition get_shelf_books ::
  "dataframe \<Rightarrow> string \<Rightarrow> (error + dataframe) \<times> dataframe" where
  "get_shelf_books df shelf =
     (if ''bookshelves_list'' \<notin> set (columns df) then (Inl KeyError, df)
      else (Inr \<lparr>columns = columns df, rows = filter (mask_in shelf) (rows df)\<rparr>, df))"

text \<open>\<open>head(n)\<close>: the first \<open>n\<close> rows, or all but the last \<open>-n\<close> when \<open>n\<close> is negative.\<close>

definition head :: "int \<Rightarrow> 'a list \<Rightarrow> 'a list" where
  "head n xs = (if 0 \<le> n then take (nat n) xs else take (length xs - nat (- n)) xs)"

text \<open>
  \<open>sort_values(by='My Rating', ascending=False)\<close> is called with the default
  \<open>kind='quicksort'\<close>, for which pandas leaves the order of rows with equal keys to
  the sorting routine of numpy. The sort is therefore a parameter of the model.
  The frame \<open>shelf_books\<close> is the new frame that \<open>get_shelf_books\<close> returns; line 152
  assigns its rating column, not that of \<open>self.df\<close>.
\<close>

definition top_rated_books_on_shelf ::
  "(row list \<Rightarrow> row list) \<Rightarrow> dataframe \<Rightarrow> string \<Rightarrow> int
     \<Rightarrow> (error + (string \<times> string \<times> cell) list) \<times> dataframe" where
  "top_rated_books_on_shelf sort_values df shelf n =
     (case get_shelf_books df shelf of
        (Inl e, df') \<Rightarrow> (Inl e, df')
      | (Inr shelf_books, df') \<Rightarrow>
          if ''My Rating'' \<notin> set (columns shelf_books) then (Inl KeyError, df')
          else
            let shelf_books =
                  shelf_books\<lparr>rows :=
                    map (\<lambda>r. r\<lparr>My_Rating := to_numeric (My_Rating r)\<rparr>) (rows shelf_books)\<rparr>;
                top_books = head n (sort_values (rows shelf_books))
            in
              if top_books \<noteq> [] then
                (if ''Title'' \<in> set (columns shelf_books) \<and> ''Author'' \<in> set (columns shelf_books)
                 then (Inr (map (\<lambda>r. (Title r, Author r, My_Rating r)) top_books), df')
                 else (Inl KeyError, df'))
              else (Inr [], df'))"

text \<open>\<open>my_ratings > 0\<close> is false at a missing value.\<close>

fun positive :: "cell \<Rightarrow> bool" where
  "positive (Num q) = (0 < q)"
| "positive _ = False"

text \<open>
  \<open>value_counts().sort_index().to_dict()\<close>: one entry for each distinct value, with the
  number of its occurrences, the keys in ascending order.
\<close>

definition value_counts_sort_index :: "rat list \<Rightarrow> (rat \<times> nat) list" where
  "value_counts_sort_index xs = map (\<lambda>v. (v, count_list xs v)) (sort (remdups xs))"

record summary =
  total_books :: nat
  books_read :: nat
  books_to_read :: nat
  avg_rating :: cell
  rating_distribution :: "(rat \<times> nat) list"
  percent_read :: rat

text \<open>The mean of a series with no value is a missing value.\<close>

definition reading_stats :: "dataframe \<Rightarrow> (error + summary) \<times> dataframe" where
  "reading_stats df =
     (if ''bookshelves_list'' \<notin> set (columns df) then (Inl KeyError, df)
      else
        let read_books = filter (mask_literal ''read'') (rows df);
            to_read_books = filter (mask_literal ''to-read'') (rows df)
        in
          if ''My Rating'' \<notin> set (columns df) then (Inl KeyError, df)
          else
            let my_ratings = map (\<lambda>r. to_numeric (My_Rating r)) read_books;
                rated = dropna (filter positive my_ratings);
                avg_rating = (if rated = [] then NaN else Num (mean rated));
                rating_dist = value_counts_sort_index rated
            in
              (Inr \<lparr>total_books = length (rows df),
                     books_read = length read_books,
                     books_to_read = length to_read_books,
                     avg_rating = avg_rating,
                     rating_distribution = rating_dist,
                     percent_read =
                       (if length (rows df) > 0
                        then (of_nat (length read_books) / of_nat (length (rows df))) * 100
                        else 0)\<rparr>, df))"

section \<open>Notions of the specification\<close>

text \<open>
  \<open>sep.join(ts)\<close>, the inverse of splitting; a token and its trimmed form; a position
  marker (a space, \<open>(#\<close>, one or more digits, \<open>)\<close>), a string that holds one
  somewhere, and a string that ends in one; a raw shelf string with a trailing comma,
  two consecutive commas, or only whitespace between two commas.
\<close>

fun join :: "char \<Rightarrow> string list \<Rightarrow> string" where
  "join sep [] = []"
| "join sep [t] = t"
| "join sep (t # u # ts) = t @ sep # join sep (u # ts)"

definition trimmed :: "string \<Rightarrow> string \<Rightarrow> bool" where
  "trimmed t s = (\<exists>a b. t = a @ s @ b \<and> (\<forall>c\<in>set a. isspace c) \<and> (\<forall>c\<in>set b. isspace c) \<and>
     (s = [] \<or> (\<not> isspace (hd s) \<and> \<not> isspace (last s))))"

definition marker :: "string \<Rightarrow> bool" where
  "marker m = (\<exists>ds. ds \<noteq> [] \<and> (\<forall>d\<in>set ds. isdigit d) \<and> m = '' (#'' @ ds @ '')'')"

definition contains_marker :: "string \<Rightarrow> bool" where
  "contains_marker t = (\<exists>u m v. marker m \<and> t = u @ m @ v)"

definition marker_suffix :: "string \<Rightarrow> bool" where
  "marker_suffix t = (\<exists>p m. marker m \<and> t = p @ m)"

definition blank_segment :: "string \<Rightarrow> bool" where
  "blank_segment x =
     ((\<exists>u. x = u @ '','') \<or> (\<exists>u v. x = u @ '',,'' @ v) \<or>
      (\<exists>u w v. x = u @ '','' @ w @ '','' @ v \<and> (\<forall>c\<in>set w. isspace c)))"

section \<open>Example tables\<close>

definition book :: "string \<Rightarrow> cell \<Rightarrow> cell \<Rightarrow> string option \<Rightarrow> string option \<Rightarrow> row" where
  "book title pages rating shelves positions =
     \<lparr>Title = title, Author = ''anon'', Number_of_Pages = pages, My_Rating = rating,
      Bookshelves = shelves, Bookshelves_with_positions = positions,
      bookshelves_list = [], bookshelves_positions_list = []\<rparr>"

definition export_columns :: "string list" where
  "export_columns = [''Title'', ''Author'', ''Number of Pages'', ''My Rating'',
     ''Bookshelves'', ''Bookshelves with positions'']"

definition nyc_table :: dataframe where
  "nyc_table = \<lparr>columns = export_columns,
     rows = [book ''A'' (Num 100) (Num 4) (Some ''nyc, read'') (Some ''nyc (#1), read (#7)''),
             book ''B'' NaN (Num 0) (Some ''nyc'') (Some ''nyc (#2)''),
             book ''C'' Unparseable NaN None None,
             book ''D'' (Num 250) (Num 5) (Some ''Read,'') (Some ''read (#8),'')]\<rparr>"

section \<open>Properties of the string functions\<close>

lemma split_not_Nil: "split sep x \<noteq> []"
  by (induction x) (auto split: list.splits)

lemma join_split: "join sep (split sep x) = x"
proof (induction x)
  case Nil
  show ?case by simp
next
  case (Cons c cs)
  obtain t ts where s: "split sep cs = t # ts"
    using split_not_Nil [of sep cs] by (cases "split sep cs") auto
  show ?case
  proof (cases "c = sep")
    case True
    with Cons s show ?thesis by simp
  next
    case False
    with Cons s show ?thesis by (cases ts) auto
  qed
qed

lemma split_no_sep: "t \<in> set (split sep x) \<Longrightarrow> sep \<notin> set t"
proof (induction x arbitrary: t)
  case Nil
  then show ?case by simp
next
  case (Cons c cs)
  obtain u us where s: "split sep cs = u # us"
    using split_not_Nil [of sep cs] by (cases "split sep cs") auto
  show ?case
  proof (cases "c = sep")
    case True
    with Cons show ?thesis by auto
  next
    case False
    with Cons.prems s have "t = c # u \<or> t \<in> set us" by simp
    moreover have "sep \<notin> set u" using Cons.IH [of u] s by simp
    moreover have "t \<in> set us \<Longrightarrow> sep \<notin> set t" using Cons.IH [of t] s by simp
    ultimately show ?thesis using False by auto
  qed
qed

lemma split_append_sep: "split sep (u @ sep # v) = split sep u @ split sep v"
proof (induction u)
  case Nil
  show ?case by simp
next
  case (Cons c cs)
  obtain t ts where s: "split sep cs = t # ts"
    using split_not_Nil [of sep cs] by (cases "split sep cs") auto
  with Cons show ?case by simp
qed

lemma split_without_sep: "sep \<notin> set w \<Longrightarrow> split sep w = [w]"
  by (induction w) auto

lemma strip_prefix_suffix:
  "\<exists>a b. t = a @ strip t @ b \<and> (\<forall>c\<in>set a. isspace c) \<and> (\<forall>c\<in>set b. isspace c)"
proof -
  let ?rest = "dropWhile isspace t"
  let ?a = "takeWhile isspace t"
  let ?b = "rev (takeWhile isspace (rev ?rest))"
  have "rev (takeWhile isspace (rev ?rest) @ dropWhile isspace (rev ?rest)) = rev (rev ?rest)"
    by (simp only: takeWhile_dropWhile_id)
  then have "?rest = strip t @ ?b"
    by (simp only: strip_def rev_append rev_rev_ident)
  moreover have "t = ?a @ ?rest" by simp
  ultimately have "t = ?a @ strip t @ ?b" by simp
  moreover have "\<forall>c\<in>set ?a. isspace c" by (auto dest: set_takeWhileD)
  moreover have "\<forall>c\<in>set ?b. isspace c" by (auto dest: set_takeWhileD)
  ultimately show ?thesis by blast
qed

lemma last_dropWhile_eq: "dropWhile P xs \<noteq> [] \<Longrightarrow> last (dropWhile P xs) = last xs"
proof -
  assume ne: "dropWhile P xs \<noteq> []"
  have "last xs = last (takeWhile P xs @ dropWhile P xs)" by simp
  also have "\<dots> = last (dropWhile P xs)" using ne by (simp only: last_append if_False)
  finally show ?thesis by simp
qed

lemma strip_ends:
  assumes "strip t \<noteq> []"
  shows "\<not> isspace (hd (strip t)) \<and> \<not> isspace (last (strip t))"
proof -
  let ?rest = "dropWhile isspace t"
  let ?d = "dropWhile isspace (rev ?rest)"
  from assms have d: "?d \<noteq> []" by (simp add: strip_def)
  have rest: "?rest \<noteq> []"
  proof
    assume "?rest = []"
    then have "?d = []" by (simp only: rev.simps dropWhile.simps)
    with d show False by simp
  qed
  have "last (strip t) = hd ?d" using d by (simp add: strip_def last_rev)
  moreover have "\<not> isspace (hd ?d)" using d by (rule hd_dropWhile)
  moreover have "hd (strip t) = last ?d" using d by (simp add: strip_def hd_rev)
  moreover have "last ?d = last (rev ?rest)" using d by (rule last_dropWhile_eq)
  moreover have "last (rev ?rest) = hd ?rest" using rest by (simp add: last_rev)
  moreover have "\<not> isspace (hd ?rest)" using rest by (rule hd_dropWhile)
  ultimately show ?thesis by simp
qed

lemma strip_trimmed: "trimmed t (strip t)"
  unfolding trimmed_def using strip_prefix_suffix [of t] strip_ends [of t] by blast

lemma strip_blank: "\<forall>c\<in>set w. isspace c \<Longrightarrow> strip w = []"
proof -
  assume "\<forall>c\<in>set w. isspace c"
  then have "dropWhile isspace w = []" by simp
  then show ?thesis by (simp only: strip_def rev.simps dropWhile.simps)
qed

lemma lower_Nil_iff: "lower s = [] \<longleftrightarrow> s = []"
  by (simp add: lower_def)

lemma comma_not_space: "\<not> isspace CHR '',''"
  by (simp add: isspace_def)

lemma match_marker_SomeD:
  assumes "match_marker s = Some r"
  shows "\<exists>m. marker m \<and> s = m @ r"
proof (cases s rule: match_marker.cases)
  case (1 c1 c2 c3 t)
  with assms obtain c where h: "c1 = CHR '' ''" "c2 = CHR ''(''" "c3 = CHR ''#''"
    "dropWhile isdigit t = c # r" "takeWhile isdigit t \<noteq> []" "c = CHR '')''"
    by (auto split: if_splits list.splits)
  have t: "t = takeWhile isdigit t @ CHR '')'' # r"
    using takeWhile_dropWhile_id [of isdigit t] h by simp
  have "marker ('' (#'' @ takeWhile isdigit t @ '')'')"
    unfolding marker_def using h(5) by (auto dest: set_takeWhileD)
  moreover have "s = ('' (#'' @ takeWhile isdigit t @ '')'') @ r"
    using 1 h t by simp
  ultimately show ?thesis by blast
qed (use assms in simp_all)

lemma match_marker_marker:
  assumes "marker m"
  shows "match_marker (m @ r) = Some r"
proof -
  from assms obtain ds where ds: "ds \<noteq> []" "\<forall>d\<in>set ds. isdigit d" "m = '' (#'' @ ds @ '')''"
    unfolding marker_def by blast
  have nd: "\<not> isdigit CHR '')''" by (simp add: isdigit_def)
  have "takeWhile isdigit (ds @ CHR '')'' # r) = ds"
    using ds(2) nd by simp
  moreover have "dropWhile isdigit (ds @ CHR '')'' # r) = CHR '')'' # r"
    using ds(2) nd by simp
  ultimately show ?thesis using ds by simp
qed

lemma re_sub_marker_unchanged:
  "\<not> contains_marker t \<Longrightarrow> re_sub_marker t = t"
proof (induction t rule: re_sub_marker.induct)
  case 1
  show ?case by simp
next
  case (2 c cs)
  have none: "match_marker (c # cs) = None"
  proof (rule ccontr)
    assume "match_marker (c # cs) \<noteq> None"
    then obtain r where "match_marker (c # cs) = Some r" by auto
    then obtain m where "marker m" "c # cs = m @ r" using match_marker_SomeD by blast
    then have "contains_marker (c # cs)"
      unfolding contains_marker_def by (metis append_Nil)
    with 2(3) show False by simp
  qed
  have "\<not> contains_marker cs"
  proof
    assume "contains_marker cs"
    then obtain u m v where "marker m" "cs = u @ m @ v" unfolding contains_marker_def by blast
    then have "marker m \<and> c # cs = (c # u) @ m @ v" by simp
    then have "contains_marker (c # cs)" unfolding contains_marker_def by blast
    with 2(3) show False by simp
  qed
  then have "re_sub_marker cs = cs" using 2 none by simp
  with none show ?case by simp
qed

lemma marker_no_inner_space:
  assumes "marker m"
  shows "CHR '' '' \<notin> set (tl m)" and "hd m = CHR '' ''"
proof -
  from assms obtain ds where ds: "\<forall>d\<in>set ds. isdigit d" "m = '' (#'' @ ds @ '')''"
    unfolding marker_def by blast
  have "\<not> isdigit CHR '' ''" by (simp add: isdigit_def)
  with ds show "CHR '' '' \<notin> set (tl m)" by auto
  from ds show "hd m = CHR '' ''" by simp
qed

lemma match_marker_prefix_None:
  assumes nc: "\<not> contains_marker (c # cs)" and mk: "marker m"
  shows "match_marker (c # cs @ m @ v) = None"
proof (rule ccontr)
  assume "match_marker (c # cs @ m @ v) \<noteq> None"
  then obtain r where "match_marker (c # cs @ m @ v) = Some r" by auto
  then obtain m' where m': "marker m'" "c # cs @ m @ v = m' @ r"
    using match_marker_SomeD by blast
  from m'(2) have "(c # cs) @ (m @ v) = m' @ r" by simp
  then obtain us where us: "(c # cs = m' @ us \<and> us @ (m @ v) = r) \<or> ((c # cs) @ us = m' \<and> m @ v = us @ r)"
    unfolding append_eq_append_conv2 by blast
  then show False
  proof
    assume "c # cs = m' @ us \<and> us @ (m @ v) = r"
    then have "marker m' \<and> c # cs = [] @ m' @ us" using m'(1) by simp
    then have "contains_marker (c # cs)" unfolding contains_marker_def by blast
    with nc show False by simp
  next
    assume a: "(c # cs) @ us = m' \<and> m @ v = us @ r"
    show False
    proof (cases us)
      case Nil
      with a have "marker m' \<and> c # cs = [] @ m' @ []" using m'(1) by simp
      then have "contains_marker (c # cs)" unfolding contains_marker_def by blast
      with nc show False by simp
    next
      case (Cons u us')
      from mk have "m \<noteq> []" unfolding marker_def by auto
      with a Cons have "u = hd m" by (cases m) auto
      with marker_no_inner_space(2) [OF mk] have "u = CHR '' ''" by simp
      with a Cons have "CHR '' '' \<in> set (tl m')" by auto
      with marker_no_inner_space(1) [OF m'(1)] show False by simp
    qed
  qed
qed

lemma re_sub_marker_removes:
  "\<not> contains_marker u \<Longrightarrow> marker m \<Longrightarrow> re_sub_marker (u @ m @ v) = u @ re_sub_marker v"
proof (induction u)
  case Nil
  from Nil(2) have ne: "m \<noteq> []" unfolding marker_def by auto
  then obtain c cs where m: "m = c # cs" by (cases m) auto
  have "match_marker ((c # cs) @ v) = Some v" using match_marker_marker [OF Nil(2)] m by simp
  then show ?case using m by simp
next
  case (Cons c cs)
  have none: "match_marker (c # cs @ m @ v) = None"
    using match_marker_prefix_None [OF Cons(2) Cons(3)] .
  have "\<not> contains_marker cs"
  proof
    assume "contains_marker cs"
    then obtain u' m' v' where "marker m'" "cs = u' @ m' @ v'" unfolding contains_marker_def by blast
    then have "marker m' \<and> c # cs = (c # u') @ m' @ v'" by simp
    then have "contains_marker (c # cs)" unfolding contains_marker_def by blast
    with Cons(2) show False by simp
  qed
  with Cons(1) Cons(3) none show ?case by simp
qed

section \<open>Properties of the normalizer\<close>

lemma init_rows:
  "rows (init src) =
     map (\<lambda>r. (if ''Bookshelves with positions'' \<in> set (columns src)
               then bookshelves_positions_list_update
                      (\<lambda>_. shelves_positions_of (fillna (Bookshelves_with_positions r)))
               else id)
              ((if ''Bookshelves'' \<in> set (columns src)
                then bookshelves_list_update (\<lambda>_. shelves_of (fillna (Bookshelves r)))
                else id) r))
         (rows src)"
  by (simp add: init_def clean_bookshelves_def Let_def add_column_def)

lemma init_length: "length (rows (init src)) = length (rows src)"
  by (simp add: init_rows)

lemma init_bookshelves_list:
  assumes "''Bookshelves'' \<in> set (columns src)" and "i < length (rows src)"
  shows "bookshelves_list (rows (init src) ! i) = shelves_of (fillna (Bookshelves (rows src ! i)))"
  using assms by (simp add: init_rows)

lemma init_bookshelves_positions_list:
  assumes "''Bookshelves with positions'' \<in> set (columns src)" and "i < length (rows src)"
  shows "bookshelves_positions_list (rows (init src) ! i) =
    shelves_positions_of (fillna (Bookshelves_with_positions (rows src ! i)))"
  using assms by (simp add: init_rows)

lemma init_raw:
  assumes "i < length (rows src)"
  shows "Bookshelves (rows (init src) ! i) = Bookshelves (rows src ! i)"
  using assms by (simp add: init_rows)

lemma init_columns:
  "''Bookshelves'' \<in> set (columns src) \<Longrightarrow> ''bookshelves_list'' \<in> set (columns (init src))"
  by (simp add: init_def clean_bookshelves_def Let_def add_column_def)

lemma init_columns_absent:
  "''Bookshelves'' \<notin> set (columns src) \<Longrightarrow> ''bookshelves_list'' \<notin> set (columns src) \<Longrightarrow>
   ''bookshelves_list'' \<notin> set (columns (init src))"
  by (simp add: init_def clean_bookshelves_def Let_def add_column_def)

lemma shelves_of_tokens:
  assumes "x \<noteq> []"
  shows "\<exists>ts. ts \<noteq> [] \<and> join CHR '','' ts = x \<and> (\<forall>t\<in>set ts. CHR '','' \<notin> set t) \<and>
     shelves_of x = map strip ts"
proof -
  let ?ts = "split CHR '','' x"
  have "?ts \<noteq> []" by (rule split_not_Nil)
  moreover have "join CHR '','' ?ts = x" by (rule join_split)
  moreover have "\<forall>t\<in>set ?ts. CHR '','' \<notin> set t" using split_no_sep by blast
  moreover have "shelves_of x = map strip ?ts" using assms by (simp add: shelves_of_def)
  ultimately show ?thesis by blast
qed

lemma blank_segment_split:
  assumes "blank_segment x"
  shows "\<exists>w\<in>set (split CHR '','' x). \<forall>c\<in>set w. isspace c"
proof -
  from assms consider
      (trail) u where "x = u @ '',''"
    | (twice) u v where "x = u @ '',,'' @ v"
    | (between) u w v where "x = u @ '','' @ w @ '','' @ v" "\<forall>c\<in>set w. isspace c"
    unfolding blank_segment_def by blast
  then show ?thesis
  proof cases
    case trail
    then have "split CHR '','' x = split CHR '','' u @ [[]]"
      using split_append_sep [of "CHR '',''" u "[]"] by simp
    then show ?thesis by simp
  next
    case twice
    then have "split CHR '','' x = split CHR '','' u @ [] # split CHR '','' v"
      using split_append_sep [of "CHR '',''" u "CHR '','' # v"] by simp
    then show ?thesis by simp
  next
    case between
    have "CHR '','' \<notin> set w" using between(2) comma_not_space by blast
    then have w: "split CHR '','' w = [w]" by (rule split_without_sep)
    have "split CHR '','' x = split CHR '','' u @ split CHR '','' (w @ CHR '','' # v)"
      using between(1) split_append_sep [of "CHR '',''" u "w @ CHR '','' # v"] by simp
    also have "\<dots> = split CHR '','' u @ [w] @ split CHR '','' v"
      using w split_append_sep [of "CHR '',''" w v] by simp
    finally show ?thesis using between(2) by simp
  qed
qed

lemma blank_segment_not_Nil: "blank_segment x \<Longrightarrow> x \<noteq> []"
  unfolding blank_segment_def by auto

lemma blank_segment_shelves_of:
  assumes "blank_segment x"
  shows "[] \<in> set (shelves_of x)"
proof -
  from blank_segment_split [OF assms] obtain w
    where w: "w \<in> set (split CHR '','' x)" "\<forall>c\<in>set w. isspace c" by blast
  then have "strip w = []" using strip_blank by blast
  with w(1) have "[] \<in> strip ` set (split CHR '','' x)" by force
  then show ?thesis using blank_segment_not_Nil [OF assms] by (simp add: shelves_of_def)
qed

lemma mask_in_empty: "mask_in [] r \<longleftrightarrow> [] \<in> set (bookshelves_list r)"
  by (auto simp: mask_in_def lower_def)

section \<open>Facts about the example tables\<close>

lemma nyc_table_columns: "''Bookshelves'' \<in> set (columns nyc_table)"
  by (simp add: nyc_table_def export_columns_def)

lemma nyc_table_length: "length (rows nyc_table) = 4"
  by (simp add: nyc_table_def)

lemma nyc_table_raw:
  "Bookshelves (rows nyc_table ! 0) = Some ''nyc, read''"
  "Bookshelves (rows nyc_table ! 2) = None"
  by (simp_all add: nyc_table_def book_def)

section \<open>The claims\<close>

text \<open>
  C7. The shelf normalizer splits the raw \<open>Bookshelves\<close> string strictly on commas and
  trims surrounding whitespace from each token: for a non-empty raw string the derived
  list is \<open>map strip ts\<close> for the one list \<open>ts\<close> of comma-free tokens that, joined by
  commas, give the raw string back, and \<open>strip t\<close> is \<open>t\<close> without its leading and
  trailing whitespace. For the empty string and for a missing value the derived list is
  empty.
\<close>

theorem shelves_split_on_commas_and_trimmed:
  assumes "''Bookshelves'' \<in> set (columns src)" and "i < length (rows src)"
  shows "(Bookshelves (rows src ! i) = None \<or> Bookshelves (rows src ! i) = Some []
            \<longrightarrow> bookshelves_list (rows (init src) ! i) = []) \<and>
         (\<forall>x. Bookshelves (rows src ! i) = Some x \<and> x \<noteq> [] \<longrightarrow>
            (\<exists>ts. ts \<noteq> [] \<and> join CHR '','' ts = x \<and> (\<forall>t\<in>set ts. CHR '','' \<notin> set t) \<and>
                  bookshelves_list (rows (init src) ! i) = map strip ts \<and>
                  (\<forall>t\<in>set ts. trimmed t (strip t))))"
proof (intro conjI impI allI)
  assume "Bookshelves (rows src ! i) = None \<or> Bookshelves (rows src ! i) = Some []"
  then have "fillna (Bookshelves (rows src ! i)) = []" by auto
  then show "bookshelves_list (rows (init src) ! i) = []"
    using init_bookshelves_list [OF assms] by (simp add: shelves_of_def)
next
  fix x
  assume "Bookshelves (rows src ! i) = Some x \<and> x \<noteq> []"
  then have x: "fillna (Bookshelves (rows src ! i)) = x" "x \<noteq> []" by simp_all
  from shelves_of_tokens [OF x(2)] obtain ts where
    ts: "ts \<noteq> []" "join CHR '','' ts = x" "\<forall>t\<in>set ts. CHR '','' \<notin> set t" "shelves_of x = map strip ts"
    by blast
  have "bookshelves_list (rows (init src) ! i) = map strip ts"
    using init_bookshelves_list [OF assms] x(1) ts(4) by simp
  moreover have "\<forall>t\<in>set ts. trimmed t (strip t)" using strip_trimmed by blast
  ultimately show "\<exists>ts. ts \<noteq> [] \<and> join CHR '','' ts = x \<and> (\<forall>t\<in>set ts. CHR '','' \<notin> set t) \<and>
                  bookshelves_list (rows (init src) ! i) = map strip ts \<and>
                  (\<forall>t\<in>set ts. trimmed t (strip t))"
    using ts by blast
qed

theorem shelves_split_on_commas_and_trimmed_witness:
  "''Bookshelves'' \<in> set (columns nyc_table) \<and> 0 < length (rows nyc_table) \<and>
   2 < length (rows nyc_table) \<and>
   bookshelves_list (rows (init nyc_table) ! 2) = [] \<and>
   (\<exists>ts. join CHR '','' ts = ''nyc, read'' \<and>
         bookshelves_list (rows (init nyc_table) ! 0) = map strip ts)"
proof -
  have c: "''Bookshelves'' \<in> set (columns nyc_table)" by (rule nyc_table_columns)
  have l0: "0 < length (rows nyc_table)" and l2: "2 < length (rows nyc_table)"
    by (simp_all add: nyc_table_length)
  from shelves_split_on_commas_and_trimmed [OF c l2] nyc_table_raw(2)
  have "bookshelves_list (rows (init nyc_table) ! 2) = []" by simp
  moreover from shelves_split_on_commas_and_trimmed [OF c l0] nyc_table_raw(1)
  have "\<exists>ts. join CHR '','' ts = ''nyc, read'' \<and>
         bookshelves_list (rows (init nyc_table) ! 0) = map strip ts"
    by auto
  ultimately show ?thesis using c l0 l2 by simp
qed

lemma example_positions:
  "shelves_positions_of ''currently-reading (#3), read'' = [''currently-reading'', ''read'']"
  by (simp add: shelves_positions_of_def strip_def isspace_def isdigit_def)

lemma marker_hash1: "marker '' (#1)''"
  unfolding marker_def
proof (intro exI conjI)
  show "''1'' \<noteq> []" by simp
  show "\<forall>d\<in>set ''1''. isdigit d" by (simp add: isdigit_def)
  show "'' (#1)'' = '' (#'' @ ''1'' @ '')''" by simp
qed

lemma not_contains_marker_a: "\<not> contains_marker ''a''"
  unfolding contains_marker_def marker_def
  by (auto simp: append_eq_Cons_conv)

text \<open>
  C1, as amended. For every token of the raw \<open>Bookshelves with positions\<close> string,
  normalization first trims surrounding whitespace and then removes every occurrence
  of a position marker (a space, \<open>(#\<close>, one or more digits, \<open>)\<close>), scanning from the
  left, wherever it stands in the token and not only at its end: a trimmed token
  \<open>u @ m @ v\<close> with a marker \<open>m\<close> and no marker in \<open>u\<close> becomes \<open>u\<close> followed by
  the cleaned \<open>v\<close>, so a token that ends in its only marker loses it. A token that
  holds no marker passes through unchanged, and the raw value
  \<open>currently-reading (#3), read\<close> gives the shelves \<open>currently-reading\<close> and \<open>read\<close>.
\<close>

theorem position_markers_removed_anywhere:
  "(''Bookshelves with positions'' \<in> set (columns src) \<and> i < length (rows src) \<longrightarrow>
      bookshelves_positions_list (rows (init src) ! i) =
        shelves_positions_of (fillna (Bookshelves_with_positions (rows src ! i)))) \<and>
   (x \<noteq> [] \<longrightarrow> shelves_positions_of x = map (\<lambda>t. re_sub_marker (strip t)) (split CHR '','' x)) \<and>
   (\<not> contains_marker (strip t) \<longrightarrow> re_sub_marker (strip t) = strip t) \<and>
   (\<forall>p m. strip t = p @ m \<and> marker m \<and> \<not> contains_marker p \<longrightarrow> re_sub_marker (strip t) = p) \<and>
   (\<forall>u m v. strip t = u @ m @ v \<and> marker m \<and> \<not> contains_marker u
       \<longrightarrow> re_sub_marker (strip t) = u @ re_sub_marker v) \<and>
   shelves_positions_of ''currently-reading (#3), read'' = [''currently-reading'', ''read'']"
proof (intro conjI impI allI)
  assume "''Bookshelves with positions'' \<in> set (columns src) \<and> i < length (rows src)"
  then show "bookshelves_positions_list (rows (init src) ! i) =
        shelves_positions_of (fillna (Bookshelves_with_positions (rows src ! i)))"
    using init_bookshelves_positions_list [of src i] by blast
next
  assume "x \<noteq> []"
  then show "shelves_positions_of x = map (\<lambda>t. re_sub_marker (strip t)) (split CHR '','' x)"
    by (simp add: shelves_positions_of_def)
next
  assume "\<not> contains_marker (strip t)"
  then show "re_sub_marker (strip t) = strip t" by (rule re_sub_marker_unchanged)
next
  fix p m
  assume a: "strip t = p @ m \<and> marker m \<and> \<not> contains_marker p"
  then have "re_sub_marker (p @ m @ []) = p @ re_sub_marker []"
    using re_sub_marker_removes [of p m "[]"] by blast
  with a show "re_sub_marker (strip t) = p" by simp
next
  fix u m v
  assume a: "strip t = u @ m @ v \<and> marker m \<and> \<not> contains_marker u"
  then have "re_sub_marker (u @ m @ v) = u @ re_sub_marker v"
    using re_sub_marker_removes [of u m v] by blast
  with a show "re_sub_marker (strip t) = u @ re_sub_marker v" by simp
next
  show "shelves_positions_of ''currently-reading (#3), read'' = [''currently-reading'', ''read'']"
    by (rule example_positions)
qed

theorem position_markers_removed_anywhere_witness:
  "strip '' a (#1) b '' = ''a'' @ '' (#1)'' @ '' b'' \<and> marker '' (#1)'' \<and> \<not> contains_marker ''a'' \<and>
   re_sub_marker (strip '' a (#1) b '') = ''a b'' \<and>
   ''nyc (#1), read'' \<noteq> [] \<and>
   shelves_positions_of ''nyc (#1), read'' = [''nyc'', ''read''] \<and>
   ''Bookshelves with positions'' \<in> set (columns nyc_table) \<and> 0 < length (rows nyc_table) \<and>
   bookshelves_positions_list (rows (init nyc_table) ! 0) = [''nyc'', ''read'']"
proof -
  have s: "strip '' a (#1) b '' = ''a'' @ '' (#1)'' @ '' b''"
    by (simp add: strip_def isspace_def)
  have r: "re_sub_marker '' b'' = '' b''" by simp
  from position_markers_removed_anywhere [of nyc_table 0 "[]" "'' a (#1) b ''"] s marker_hash1 not_contains_marker_a
  have "re_sub_marker (strip '' a (#1) b '') = ''a'' @ re_sub_marker '' b''" by blast
  with r have 1: "re_sub_marker (strip '' a (#1) b '') = ''a b''" by simp
  have ne: "''nyc (#1), read'' \<noteq> []" by simp
  from position_markers_removed_anywhere [of nyc_table 0 "''nyc (#1), read''" "[]"] ne
  have "shelves_positions_of ''nyc (#1), read'' =
          map (\<lambda>t. re_sub_marker (strip t)) (split CHR '','' ''nyc (#1), read'')" by blast
  then have 2: "shelves_positions_of ''nyc (#1), read'' = [''nyc'', ''read'']"
    by (simp add: strip_def isspace_def isdigit_def)
  have c: "''Bookshelves with positions'' \<in> set (columns nyc_table)"
    by (simp add: nyc_table_def export_columns_def)
  have l: "0 < length (rows nyc_table)" by (simp add: nyc_table_length)
  have raw: "fillna (Bookshelves_with_positions (rows nyc_table ! 0)) = ''nyc (#1), read (#7)''"
    by (simp add: nyc_table_def book_def)
  from position_markers_removed_anywhere [of nyc_table 0 "[]" "[]"] c l
  have "bookshelves_positions_list (rows (init nyc_table) ! 0) =
          shelves_positions_of (fillna (Bookshelves_with_positions (rows nyc_table ! 0)))" by blast
  then have 3: "bookshelves_positions_list (rows (init nyc_table) ! 0) = [''nyc'', ''read'']"
    unfolding raw by (simp add: shelves_positions_of_def strip_def isspace_def isdigit_def)
  from s marker_hash1 not_contains_marker_a 1 ne 2 c l 3 show ?thesis by blast
qed

text \<open>
  The claim as stated fails: the token \<open>a (#1) b\<close> does not end in a marker, and it
  does not pass through unchanged.
\<close>

theorem trailing_marker_only_counterexample:
  "\<not> marker_suffix (strip ''a (#1) b'') \<and>
   shelves_positions_of ''a (#1) b'' \<noteq> [strip ''a (#1) b'']"
proof
  have s: "strip ''a (#1) b'' = ''a (#1) b''" by (simp add: strip_def isspace_def)
  show "\<not> marker_suffix (strip ''a (#1) b'')"
  proof
    assume "marker_suffix (strip ''a (#1) b'')"
    then obtain p ds where "''a (#1) b'' = p @ '' (#'' @ ds @ '')''"
      unfolding marker_suffix_def marker_def s by blast
    then have "last ''a (#1) b'' = last (p @ '' (#'' @ ds @ '')'')" by simp
    then show False by simp
  qed
  show "shelves_positions_of ''a (#1) b'' \<noteq> [strip ''a (#1) b'']"
    by (simp add: shelves_positions_of_def strip_def isspace_def isdigit_def)
qed

lemma get_shelf_books_empty_name:
  assumes "''bookshelves_list'' \<in> set (columns df)"
  shows "fst (get_shelf_books df []) =
    Inr \<lparr>columns = columns df, rows = filter (\<lambda>r. [] \<in> set (bookshelves_list r)) (rows df)\<rparr>"
proof -
  have "filter (mask_in []) (rows df) = filter (\<lambda>r. [] \<in> set (bookshelves_list r)) (rows df)"
    by (rule filter_cong) (simp_all add: mask_in_empty)
  with assms show ?thesis by (simp add: get_shelf_books_def)
qed

text \<open>
  C10. A raw \<open>Bookshelves\<close> string with a trailing comma, with two consecutive commas, or
  with only whitespace between two commas gives a shelf list that holds the empty
  string, and \<open>get_shelf_books\<close> of the empty string returns exactly the rows whose shelf
  list holds the empty string, in table order; the rows with such a raw string are
  among them.
\<close>

theorem empty_shelf_name_is_matchable:
  assumes "''Bookshelves'' \<in> set (columns src)"
  shows "(\<forall>i<length (rows src). \<forall>x. Bookshelves (rows src ! i) = Some x \<and> blank_segment x \<longrightarrow>
            [] \<in> set (bookshelves_list (rows (init src) ! i)) \<and>
            rows (init src) ! i \<in> set (filter (\<lambda>r. [] \<in> set (bookshelves_list r)) (rows (init src)))) \<and>
         fst (get_shelf_books (init src) []) =
           Inr \<lparr>columns = columns (init src),
                rows = filter (\<lambda>r. [] \<in> set (bookshelves_list r)) (rows (init src))\<rparr>"
proof (intro conjI allI impI)
  fix i x
  assume i: "i < length (rows src)"
    and x: "Bookshelves (rows src ! i) = Some x \<and> blank_segment x"
  then have "[] \<in> set (shelves_of x)" using blank_segment_shelves_of by blast
  then show e: "[] \<in> set (bookshelves_list (rows (init src) ! i))"
    using init_bookshelves_list [OF assms i] x by simp
  have "rows (init src) ! i \<in> set (rows (init src))"
    using i by (simp add: init_length)
  with e show "rows (init src) ! i \<in> set (filter (\<lambda>r. [] \<in> set (bookshelves_list r)) (rows (init src)))"
    by simp
next
  show "fst (get_shelf_books (init src) []) =
           Inr \<lparr>columns = columns (init src),
                rows = filter (\<lambda>r. [] \<in> set (bookshelves_list r)) (rows (init src))\<rparr>"
    using get_shelf_books_empty_name [OF init_columns [OF assms]] .
qed

lemma blank_segment_trailing: "blank_segment ''Read,''"
proof -
  have "''Read,'' = ''Read'' @ '',''" by simp
  then have "\<exists>u. ''Read,'' = u @ '',''"
    by (rule exI [where P = "\<lambda>u. ''Read,'' = u @ '',''" and x = "''Read''"])
  then show ?thesis unfolding blank_segment_def by (rule disjI1)
qed

theorem empty_shelf_name_is_matchable_witness:
  "''Bookshelves'' \<in> set (columns nyc_table) \<and> 3 < length (rows nyc_table) \<and>
   Bookshelves (rows nyc_table ! 3) = Some ''Read,'' \<and> blank_segment ''Read,'' \<and>
   [] \<in> set (bookshelves_list (rows (init nyc_table) ! 3)) \<and>
   (\<exists>res. fst (get_shelf_books (init nyc_table) []) = Inr res \<and>
          rows (init nyc_table) ! 3 \<in> set (rows res))"
proof -
  have c: "''Bookshelves'' \<in> set (columns nyc_table)" by (rule nyc_table_columns)
  have l: "3 < length (rows nyc_table)" by (simp add: nyc_table_length)
  have raw: "Bookshelves (rows nyc_table ! 3) = Some ''Read,''"
    by (simp add: nyc_table_def book_def)
  note t = empty_shelf_name_is_matchable [OF c]
  have m: "[] \<in> set (bookshelves_list (rows (init nyc_table) ! 3)) \<and>
       rows (init nyc_table) ! 3 \<in>
         set (filter (\<lambda>r. [] \<in> set (bookshelves_list r)) (rows (init nyc_table)))"
    by (rule conjunct1 [OF t, rule_format, OF l conjI [OF raw blank_segment_trailing]])
  have g: "fst (get_shelf_books (init nyc_table) []) =
           Inr \<lparr>columns = columns (init nyc_table),
                rows = filter (\<lambda>r. [] \<in> set (bookshelves_list r)) (rows (init nyc_table))\<rparr>"
    by (rule conjunct2 [OF t])
  have "rows (init nyc_table) ! 3 \<in> set (rows \<lparr>columns = columns (init nyc_table),
                rows = filter (\<lambda>r. [] \<in> set (bookshelves_list r)) (rows (init nyc_table))\<rparr>)"
    using m by simp
  with g have e: "\<exists>res. fst (get_shelf_books (init nyc_table) []) = Inr res \<and>
          rows (init nyc_table) ! 3 \<in> set (rows res)"
    by (intro exI conjI)
  show ?thesis
    by (intro conjI c l raw blank_segment_trailing conjunct1 [OF m] e)
qed

end
